theory Spec2Isabelle
  imports Main
begin

section \<open>The elevator dispatch core\<close>

text \<open>
  A shallow embedding of the classes \<^verbatim>\<open>Lift\<close> and \<^verbatim>\<open>ElevatorSystem\<close>.
  Floors, passenger counts and times are JavaScript numbers that only ever hold
  integers here, so they are modelled as \<^typ>\<open>int\<close>. The two places where the source
  can produce an infinite value (\<^verbatim>\<open>Math.max()\<close> of no arguments and the initial
  \<^verbatim>\<open>minTime = Infinity\<close>) are modelled with the type \<open>jsnum\<close>.
\<close>

subsection \<open>Data\<close>

datatype Direction = U | D | I

record Request =
  start :: int
  dest :: int

record Lift =
  lift_id :: int
  totalFloors :: int
  currentFloor :: int
  direction :: Direction
  requests :: "Request list"
  passengers :: int

record ElevatorSystem =
  lifts :: "Lift list"
  sysTotalFloors :: int

datatype jsnum = NegInfinity | Num int | Infinity

text \<open>The comparison \<^verbatim>\<open>a < b\<close> on such numbers.\<close>

fun js_less :: "jsnum \<Rightarrow> jsnum \<Rightarrow> bool" where
  "js_less Infinity _ = False"
| "js_less _ NegInfinity = False"
| "js_less NegInfinity _ = True"
| "js_less _ Infinity = True"
| "js_less (Num a) (Num b) = (a < b)"

text \<open>\<^verbatim>\<open>Math.max(...xs)\<close> and \<^verbatim>\<open>Math.min(...xs)\<close> over a spread array of integers.\<close>

fun Math_max :: "int list \<Rightarrow> jsnum" where
  "Math_max [] = NegInfinity"
| "Math_max (x # xs) = (case Math_max xs of Num m \<Rightarrow> Num (max x m) | _ \<Rightarrow> Num x)"

fun Math_min :: "int list \<Rightarrow> jsnum" where
  "Math_min [] = Infinity"
| "Math_min (x # xs) = (case Math_min xs of Num m \<Rightarrow> Num (min x m) | _ \<Rightarrow> Num x)"

subsection \<open>Lift\<close>

definition Lift_new :: "int \<Rightarrow> int \<Rightarrow> Lift" where
  "Lift_new i floors =
     \<lparr>lift_id = i, totalFloors = floors, currentFloor = 0, direction = I,
      requests = [], passengers = 0\<rparr>"

definition isIdle :: "Lift \<Rightarrow> bool" where
  "isIdle l = (direction l = I \<and> length (requests l) = 0)"

text \<open>
  The value \<^verbatim>\<open>maxFloorInCurrentDirection\<close> of \<^verbatim>\<open>canAddRequest\<close>: the highest floor
  of the upward requests for a lift going up, the lowest floor of the downward requests
  otherwise.
\<close>

definition maxFloorInCurrentDirection :: "Lift \<Rightarrow> jsnum" where
  "maxFloorInCurrentDirection l =
     (if direction l = U
      then Math_max (map (\<lambda>r. max (start r) (dest r))
                      (filter (\<lambda>r. start r < dest r) (requests l)))
      else Math_min (map (\<lambda>r. min (start r) (dest r))
                      (filter (\<lambda>r. start r > dest r) (requests l))))"

definition canAddRequest :: "Lift \<Rightarrow> int \<Rightarrow> int \<Rightarrow> bool" where
  "canAddRequest l st d =
     (if passengers l \<ge> 10 then False
      else if isIdle l then True
      else
        let requestGoingUp = (st < d); liftGoingUp = (direction l = U) in
        if liftGoingUp \<and> requestGoingUp then
          (if currentFloor l > st then False else True)
        else if \<not> liftGoingUp \<and> \<not> requestGoingUp then
          (if currentFloor l < st then False else True)
        else
          let hasOppositeDirectionRequests =
                list_ex (\<lambda>r. (start r < dest r) \<noteq> requestGoingUp) (requests l) in
          if hasOppositeDirectionRequests then
            (if liftGoingUp \<and> requestGoingUp
                  \<and> js_less (maxFloorInCurrentDirection l) (Num st) then False
             else if \<not> liftGoingUp \<and> \<not> requestGoingUp
                  \<and> js_less (Num st) (maxFloorInCurrentDirection l) then False
             else True)
          else True)"

text \<open>The loop of \<^verbatim>\<open>calculateTimeToReach\<close> that folds the requests into \<^verbatim>\<open>maxFloor\<close>.\<close>

fun maxFloor_loop :: "bool \<Rightarrow> int \<Rightarrow> Request list \<Rightarrow> int" where
  "maxFloor_loop liftGoingUp maxFloor [] = maxFloor"
| "maxFloor_loop liftGoingUp maxFloor (req # rs) =
     maxFloor_loop liftGoingUp
       (if liftGoingUp then max (max maxFloor (start req)) (dest req)
        else min (min maxFloor (start req)) (dest req)) rs"

definition calculateTimeToReach :: "Lift \<Rightarrow> int \<Rightarrow> Direction \<Rightarrow> int" where
  "calculateTimeToReach l st requestDirection =
     (if isIdle l then \<bar>currentFloor l - st\<bar>
      else
        let liftGoingUp = (direction l = U); requestGoingUp = (requestDirection = U) in
        if liftGoingUp = requestGoingUp \<and> liftGoingUp \<and> st \<ge> currentFloor l then
          st - currentFloor l
        else if liftGoingUp = requestGoingUp \<and> \<not> liftGoingUp \<and> st \<le> currentFloor l then
          currentFloor l - st
        else
          let maxFloor = maxFloor_loop liftGoingUp (currentFloor l) (requests l) in
          if liftGoingUp then (maxFloor - currentFloor l) + (maxFloor - st)
          else (currentFloor l - maxFloor) + (st - maxFloor))"

definition hasUpRequests :: "Lift \<Rightarrow> bool" where
  "hasUpRequests l =
     list_ex (\<lambda>r. start r > currentFloor l \<or> dest r > currentFloor l
                 \<or> (start r < dest r \<and> start r \<ge> currentFloor l)) (requests l)"

definition hasDownRequests :: "Lift \<Rightarrow> bool" where
  "hasDownRequests l =
     list_ex (\<lambda>r. start r < currentFloor l \<or> dest r < currentFloor l
                 \<or> (start r > dest r \<and> start r \<le> currentFloor l)) (requests l)"

definition updateDirection :: "Lift \<Rightarrow> Lift" where
  "updateDirection l =
     (if length (requests l) = 0 then l\<lparr>direction := I\<rparr>
      else if direction l = U \<and> hasUpRequests l then l\<lparr>direction := U\<rparr>
      else if direction l = D \<and> hasDownRequests l then l\<lparr>direction := D\<rparr>
      else if hasUpRequests l then l\<lparr>direction := U\<rparr>
      else if hasDownRequests l then l\<lparr>direction := D\<rparr>
      else l\<lparr>direction := I\<rparr>)"

definition addRequest :: "Lift \<Rightarrow> int \<Rightarrow> int \<Rightarrow> Lift" where
  "addRequest l st d =
     updateDirection
       (l\<lparr>requests := requests l @ [\<lparr>start = st, dest = d\<rparr>],
          passengers := passengers l + 1\<rparr>)"

text \<open>The first statement of \<^verbatim>\<open>move\<close>: one floor up, one floor down, or no movement.\<close>

definition step_floor :: "Lift \<Rightarrow> int" where
  "step_floor l =
     (if direction l = U then currentFloor l + 1
      else if direction l = D then currentFloor l - 1
      else currentFloor l)"

definition move :: "Lift \<Rightarrow> Lift" where
  "move l =
     (let floor = step_floor l;
          completedRequests = filter (\<lambda>r. dest r = floor) (requests l);
          remaining = filter (\<lambda>r. dest r \<noteq> floor) (requests l);
          afterPickup = filter (\<lambda>r. start r \<noteq> floor) remaining
      in updateDirection
           (l\<lparr>currentFloor := floor,
              passengers := passengers l - int (length completedRequests),
              requests := afterPickup\<rparr>))"

subsection \<open>ElevatorSystem\<close>

definition ElevatorSystem_new :: ElevatorSystem where
  "ElevatorSystem_new = \<lparr>lifts = [], sysTotalFloors = 0\<rparr>"

text \<open>
  \<^verbatim>\<open>init(floors, lifts, helper)\<close>: the loop \<^verbatim>\<open>for (i = 0; i < lifts; i++)\<close> runs
  \<open>nat n\<close> times for an integer count \<open>n\<close>; the helper only prints.
\<close>

definition init :: "ElevatorSystem \<Rightarrow> int \<Rightarrow> int \<Rightarrow> ElevatorSystem" where
  "init s floors n =
     s\<lparr>sysTotalFloors := floors,
       lifts := map (\<lambda>i. Lift_new (int i) floors) [0..<nat n]\<rparr>"

definition requestDirectionOf :: "int \<Rightarrow> int \<Rightarrow> Direction" where
  "requestDirectionOf startFloor destinationFloor =
     (if startFloor < destinationFloor then U else D)"

text \<open>
  The selection loop of \<^verbatim>\<open>requestLift\<close>, from index \<open>i\<close> over the lifts still to
  visit, carrying \<^verbatim>\<open>bestLift\<close> and \<^verbatim>\<open>minTime\<close>.
\<close>

fun requestLift_loop ::
  "int \<Rightarrow> int \<Rightarrow> Lift list \<Rightarrow> nat \<Rightarrow> int \<times> jsnum \<Rightarrow> int \<times> jsnum" where
  "requestLift_loop startFloor destinationFloor [] i acc = acc"
| "requestLift_loop startFloor destinationFloor (lift # rest) i (bestLift, minTime) =
     (if canAddRequest lift startFloor destinationFloor then
        (let time = calculateTimeToReach lift startFloor
                      (requestDirectionOf startFloor destinationFloor) in
         if js_less (Num time) minTime \<or> (Num time = minTime \<and> bestLift = - 1)
         then requestLift_loop startFloor destinationFloor rest (Suc i) (int i, Num time)
         else requestLift_loop startFloor destinationFloor rest (Suc i) (bestLift, minTime))
      else requestLift_loop startFloor destinationFloor rest (Suc i) (bestLift, minTime))"

definition bestLiftFor :: "ElevatorSystem \<Rightarrow> int \<Rightarrow> int \<Rightarrow> int" where
  "bestLiftFor s startFloor destinationFloor =
     fst (requestLift_loop startFloor destinationFloor (lifts s) 0 (- 1, Infinity))"

text \<open>\<^verbatim>\<open>requestLift\<close> returns the chosen index (or \<open>-1\<close>) together with the new state.\<close>

definition requestLift :: "ElevatorSystem \<Rightarrow> int \<Rightarrow> int \<Rightarrow> int \<times> ElevatorSystem" where
  "requestLift s startFloor destinationFloor =
     (let bestLift = bestLiftFor s startFloor destinationFloor in
      if bestLift \<noteq> - 1 then
        (bestLift,
         s\<lparr>lifts := (lifts s)[nat bestLift :=
              addRequest (lifts s ! nat bestLift) startFloor destinationFloor]\<rparr>)
      else (bestLift, s))"

definition tick :: "ElevatorSystem \<Rightarrow> ElevatorSystem" where
  "tick s = s\<lparr>lifts := map move (lifts s)\<rparr>"

text \<open>
  \<^verbatim>\<open>this.lifts[liftId]?.passengers || 0\<close>: an index outside the array reads
  \<^verbatim>\<open>undefined\<close>, and a falsy passenger count (zero) yields the default as well.
\<close>

definition getNumberOfPeopleOnLift :: "ElevatorSystem \<Rightarrow> int \<Rightarrow> int" where
  "getNumberOfPeopleOnLift s liftId =
     (if 0 \<le> liftId \<and> liftId < int (length (lifts s)) then
        (let p = passengers (lifts s ! nat liftId) in if p = 0 then 0 else p)
      else 0)"

subsection \<open>Reachable states\<close>

text \<open>
  The states of a dispatcher: a fresh \<^verbatim>\<open>ElevatorSystem\<close>, and whatever \<^verbatim>\<open>init\<close>,
  \<^verbatim>\<open>requestLift\<close> and \<^verbatim>\<open>tick\<close> make of a reachable state, with any arguments.
\<close>

inductive reachable :: "ElevatorSystem \<Rightarrow> bool" where
  reachable_new: "reachable ElevatorSystem_new"
| reachable_init: "reachable s \<Longrightarrow> reachable (init s floors n)"
| reachable_requestLift:
    "reachable s \<Longrightarrow> reachable (snd (requestLift s startFloor destinationFloor))"
| reachable_tick: "reachable s \<Longrightarrow> reachable (tick s)"

text \<open>
  The states of one car: a fresh \<^verbatim>\<open>Lift\<close>, and whatever \<^verbatim>\<open>addRequest\<close> and
  \<^verbatim>\<open>move\<close> make of a reachable car. The parameter \<open>valid\<close> says which requests
  (start, destination) may be added.
\<close>

inductive reachableLift :: "(int \<Rightarrow> int \<Rightarrow> bool) \<Rightarrow> Lift \<Rightarrow> bool"
  for valid :: "int \<Rightarrow> int \<Rightarrow> bool" where
  reachableLift_new: "reachableLift valid (Lift_new i floors)"
| reachableLift_addRequest:
    "reachableLift valid l \<Longrightarrow> valid st d \<Longrightarrow> reachableLift valid (addRequest l st d)"
| reachableLift_move: "reachableLift valid l \<Longrightarrow> reachableLift valid (move l)"

subsection \<open>The selection loop's invariant\<close>

text \<open>
  After the loop of \<^verbatim>\<open>requestLift\<close> has visited the lifts \<open>pre\<close>, either none of
  them was eligible and the accumulator is still \<open>(-1, Infinity)\<close>, or \<^verbatim>\<open>bestLift\<close>
  is the first eligible lift of \<open>pre\<close> with the least time and \<^verbatim>\<open>minTime\<close> is that
  time.
\<close>

definition selected :: "int \<Rightarrow> int \<Rightarrow> Lift list \<Rightarrow> int \<times> jsnum \<Rightarrow> bool" where
  "selected st d pre acc =
     (case acc of (b, m) \<Rightarrow>
        (b = - 1 \<and> m = Infinity \<and> list_all (\<lambda>l. \<not> canAddRequest l st d) pre)
      \<or> (0 \<le> b \<and> nat b < length pre \<and> canAddRequest (pre ! nat b) st d
          \<and> m = Num (calculateTimeToReach (pre ! nat b) st (requestDirectionOf st d))
          \<and> (\<forall>j < length pre. canAddRequest (pre ! j) st d \<longrightarrow>
                calculateTimeToReach (pre ! nat b) st (requestDirectionOf st d)
                  \<le> calculateTimeToReach (pre ! j) st (requestDirectionOf st d))
          \<and> (\<forall>j < nat b. canAddRequest (pre ! j) st d \<longrightarrow>
                calculateTimeToReach (pre ! nat b) st (requestDirectionOf st d)
                  < calculateTimeToReach (pre ! j) st (requestDirectionOf st d))))"

subsection \<open>The time estimate in the specification's words\<close>

text \<open>
  The specification describes the estimate by three rules: an idle car costs the
  distance to the pickup floor; a car moving in the request's direction with the pickup
  floor still ahead costs the direct distance; any other car costs the distance to its
  turnaround floor plus the distance from there back to the pickup floor. The
  turnaround floor is the farthest floor (the highest for a car going up, the lowest
  otherwise) among the car's own floor and the start and destination floors of its
  requests. The definitions below follow these words, not the source; they are
  compared with \<^verbatim>\<open>calculateTimeToReach\<close> in the section on the time estimate.
\<close>

definition distance :: "int \<Rightarrow> int \<Rightarrow> int" where
  "distance a b = \<bar>a - b\<bar>"

definition committedFloors :: "Lift \<Rightarrow> int list" where
  "committedFloors l = concat (map (\<lambda>r. [start r, dest r]) (requests l))"

definition turnaroundFloor_spec :: "Lift \<Rightarrow> int" where
  "turnaroundFloor_spec l =
     (if direction l = U then Max (set (currentFloor l # committedFloors l))
      else Min (set (currentFloor l # committedFloors l)))"

definition pickupAhead_spec :: "Lift \<Rightarrow> int \<Rightarrow> bool" where
  "pickupAhead_spec l st =
     (if direction l = U then currentFloor l \<le> st else st \<le> currentFloor l)"

definition etaTo_spec :: "Lift \<Rightarrow> int \<Rightarrow> Direction \<Rightarrow> int" where
  "etaTo_spec l st requestDirection =
     (if direction l = I then \<bar>currentFloor l - st\<bar>
      else if direction l = requestDirection \<and> pickupAhead_spec l st then
        (if direction l = U then st - currentFloor l else currentFloor l - st)
      else distance (currentFloor l) (turnaroundFloor_spec l)
             + distance (turnaroundFloor_spec l) st)"

text \<open>The pickup floor lies past the turnaround floor, in the car's direction of travel.\<close>

definition pickupBeyondTurnaround :: "Lift \<Rightarrow> int \<Rightarrow> bool" where
  "pickupBeyondTurnaround l st =
     (if direction l = U then turnaroundFloor_spec l < st else st < turnaroundFloor_spec l)"

section \<open>What each operation does to a lift's fields\<close>

lemma updateDirection_fields [simp]:
  "currentFloor (updateDirection l) = currentFloor l"
  "requests (updateDirection l) = requests l"
  "passengers (updateDirection l) = passengers l"
  "totalFloors (updateDirection l) = totalFloors l"
  by (simp_all add: updateDirection_def)

lemma hasRequests_updateDirection [simp]:
  "hasUpRequests (updateDirection l) = hasUpRequests l"
  "hasDownRequests (updateDirection l) = hasDownRequests l"
  by (simp_all add: hasUpRequests_def hasDownRequests_def)

lemma hasUpRequests_empty [simp]: "requests l = [] \<Longrightarrow> \<not> hasUpRequests l"
  by (simp add: hasUpRequests_def)

lemma hasDownRequests_empty [simp]: "requests l = [] \<Longrightarrow> \<not> hasDownRequests l"
  by (simp add: hasDownRequests_def)

lemma direction_updateDirection_U:
  "direction (updateDirection l) = U \<Longrightarrow> hasUpRequests l"
  by (auto simp: updateDirection_def split: if_splits)

lemma direction_updateDirection_D:
  "direction (updateDirection l) = D \<Longrightarrow> hasDownRequests l"
  by (auto simp: updateDirection_def split: if_splits)

lemma direction_updateDirection_I:
  "(direction (updateDirection l) = I) = (\<not> hasUpRequests l \<and> \<not> hasDownRequests l)"
  by (auto simp: updateDirection_def)

lemma addRequest_fields [simp]:
  "currentFloor (addRequest l st d) = currentFloor l"
  "requests (addRequest l st d) = requests l @ [\<lparr>start = st, dest = d\<rparr>]"
  "passengers (addRequest l st d) = passengers l + 1"
  "totalFloors (addRequest l st d) = totalFloors l"
  by (simp_all add: addRequest_def)

lemma move_fields [simp]:
  "currentFloor (move l) = step_floor l"
  "requests (move l) =
     filter (\<lambda>r. start r \<noteq> step_floor l) (filter (\<lambda>r. dest r \<noteq> step_floor l) (requests l))"
  "passengers (move l) =
     passengers l - int (length (filter (\<lambda>r. dest r = step_floor l) (requests l)))"
  "totalFloors (move l) = totalFloors l"
  by (simp_all add: move_def Let_def)

lemma direction_addRequest:
  "direction (addRequest l st d) = U \<Longrightarrow> hasUpRequests (addRequest l st d)"
  "direction (addRequest l st d) = D \<Longrightarrow> hasDownRequests (addRequest l st d)"
  unfolding addRequest_def
  by (auto dest: direction_updateDirection_U direction_updateDirection_D)

lemma direction_move:
  "direction (move l) = U \<Longrightarrow> hasUpRequests (move l)"
  "direction (move l) = D \<Longrightarrow> hasDownRequests (move l)"
  unfolding move_def Let_def
  by (auto dest: direction_updateDirection_U direction_updateDirection_D)

lemma direction_addRequest_not_Idle:
  assumes "st \<noteq> d"
  shows "direction (addRequest l st d) \<noteq> I"
proof -
  let ?l = "l\<lparr>requests := requests l @ [\<lparr>start = st, dest = d\<rparr>],
               passengers := passengers l + 1\<rparr>"
  from assms have "hasUpRequests ?l \<or> hasDownRequests ?l"
    by (auto simp: hasUpRequests_def hasDownRequests_def)
  then show ?thesis
    by (simp add: addRequest_def direction_updateDirection_I)
qed

section \<open>The dispatcher's choice\<close>

lemma requestLift_loop_none:
  "list_all (\<lambda>l. \<not> canAddRequest l st d) ls \<Longrightarrow> requestLift_loop st d ls i acc = acc"
  by (induction ls arbitrary: i acc) (auto split: prod.splits)

lemma selected_skip:
  assumes "selected st d pre acc" "\<not> canAddRequest l st d"
  shows "selected st d (pre @ [l]) acc"
  using assms unfolding selected_def
  by (auto simp: nth_append less_Suc_eq split: prod.splits)

lemma selected_keep:
  assumes "selected st d pre (b, m)" "canAddRequest l st d"
    "\<not> (js_less (Num (calculateTimeToReach l st (requestDirectionOf st d))) m
        \<or> (Num (calculateTimeToReach l st (requestDirectionOf st d)) = m \<and> b = - 1))"
  shows "selected st d (pre @ [l]) (b, m)"
  using assms unfolding selected_def
  by (auto simp: nth_append less_Suc_eq)

lemma selected_take:
  assumes "selected st d pre (b, m)" "canAddRequest l st d"
    "js_less (Num (calculateTimeToReach l st (requestDirectionOf st d))) m
        \<or> (Num (calculateTimeToReach l st (requestDirectionOf st d)) = m \<and> b = - 1)"
  shows "selected st d (pre @ [l])
           (int (length pre), Num (calculateTimeToReach l st (requestDirectionOf st d)))"
  using assms unfolding selected_def
  by (auto simp: nth_append less_Suc_eq list_all_length)

lemma requestLift_loop_selected:
  "selected st d pre acc \<Longrightarrow> i = length pre \<Longrightarrow>
   selected st d (pre @ ls) (requestLift_loop st d ls i acc)"
proof (induction ls arbitrary: pre acc i)
  case Nil
  then show ?case by simp
next
  case (Cons l ls)
  obtain b m where acc: "acc = (b, m)" by (cases acc)
  let ?t = "calculateTimeToReach l st (requestDirectionOf st d)"
  show ?case
  proof (cases "canAddRequest l st d")
    case False
    with Cons.prems have "selected st d (pre @ [l]) acc" by (simp add: selected_skip)
    from Cons.IH [OF this, of "Suc i"] Cons.prems False acc show ?thesis by simp
  next
    case True
    show ?thesis
    proof (cases "js_less (Num ?t) m \<or> (Num ?t = m \<and> b = - 1)")
      case take: True
      from Cons.prems acc True take
      have "selected st d (pre @ [l]) (int (length pre), Num ?t)"
        using selected_take by blast
      from Cons.IH [OF this, of "Suc i"] Cons.prems True take acc show ?thesis
        by (auto simp: Let_def)
    next
      case keep: False
      from Cons.prems acc True keep
      have "selected st d (pre @ [l]) (b, m)"
        using selected_keep by blast
      from Cons.IH [OF this, of "Suc i"] Cons.prems True keep acc show ?thesis
        by (auto simp: Let_def)
    qed
  qed
qed

lemma selected_initial: "selected st d [] (- 1, Infinity)"
  by (simp add: selected_def)

lemma requestLift_loop_result:
  "selected st d ls (requestLift_loop st d ls 0 (- 1, Infinity))"
  using requestLift_loop_selected [OF selected_initial, of 0 st d ls] by simp

lemma bestLiftFor_none:
  "list_all (\<lambda>l. \<not> canAddRequest l st d) (lifts s) \<Longrightarrow> bestLiftFor s st d = - 1"
  by (simp add: bestLiftFor_def requestLift_loop_none)

lemma bestLiftFor_some:
  assumes "bestLiftFor s st d \<noteq> - 1"
  shows "0 \<le> bestLiftFor s st d \<and> nat (bestLiftFor s st d) < length (lifts s)
         \<and> canAddRequest (lifts s ! nat (bestLiftFor s st d)) st d"
proof -
  obtain b m where r: "requestLift_loop st d (lifts s) 0 (- 1, Infinity) = (b, m)"
    by (cases "requestLift_loop st d (lifts s) 0 (- 1, Infinity)")
  with requestLift_loop_result [of st d "lifts s"] have "selected st d (lifts s) (b, m)"
    by simp
  moreover from r assms have "b \<noteq> - 1" "bestLiftFor s st d = b"
    by (simp_all add: bestLiftFor_def)
  ultimately show ?thesis by (auto simp: selected_def)
qed

lemma bestLiftFor_minimal:
  assumes "\<not> list_all (\<lambda>l. \<not> canAddRequest l st d) (lifts s)"
  shows "0 \<le> bestLiftFor s st d \<and> nat (bestLiftFor s st d) < length (lifts s)
     \<and> canAddRequest (lifts s ! nat (bestLiftFor s st d)) st d
     \<and> (\<forall>j < length (lifts s). canAddRequest (lifts s ! j) st d \<longrightarrow>
            calculateTimeToReach (lifts s ! nat (bestLiftFor s st d)) st (requestDirectionOf st d)
              \<le> calculateTimeToReach (lifts s ! j) st (requestDirectionOf st d))
     \<and> (\<forall>j < nat (bestLiftFor s st d). canAddRequest (lifts s ! j) st d \<longrightarrow>
            calculateTimeToReach (lifts s ! nat (bestLiftFor s st d)) st (requestDirectionOf st d)
              < calculateTimeToReach (lifts s ! j) st (requestDirectionOf st d))"
proof -
  obtain b m where r: "requestLift_loop st d (lifts s) 0 (- 1, Infinity) = (b, m)"
    by (cases "requestLift_loop st d (lifts s) 0 (- 1, Infinity)")
  with requestLift_loop_result [of st d "lifts s"] have "selected st d (lifts s) (b, m)"
    by simp
  moreover from r have "bestLiftFor s st d = b"
    by (simp add: bestLiftFor_def)
  ultimately show ?thesis using assms by (auto simp: selected_def)
qed



text \<open>
  Claim C8. When no lift is eligible, \<^verbatim>\<open>requestLift\<close> returns \<open>-1\<close> and the state
  it leaves is the state it found: every lift's floor, direction, requests and
  passenger count are unchanged.
\<close>

theorem requestLift_no_eligible_car:
  assumes "\<forall>i < length (lifts s). \<not> canAddRequest (lifts s ! i) startFloor destinationFloor"
  shows "requestLift s startFloor destinationFloor = (- 1, s)"
proof -
  from assms have "list_all (\<lambda>l. \<not> canAddRequest l startFloor destinationFloor) (lifts s)"
    by (simp add: list_all_length)
  then show ?thesis by (simp add: requestLift_def bestLiftFor_none)
qed

text \<open>
  One lift that has taken the request (0, 3) and moved two floors up has passed
  floor 0, so the request (0, 5) finds no eligible lift.
\<close>

theorem requestLift_no_eligible_car_witness:
  "requestLift (tick (tick (snd (requestLift (init ElevatorSystem_new 6 1) 0 3)))) 0 5
     = (- 1, tick (tick (snd (requestLift (init ElevatorSystem_new 6 1) 0 3))))"
proof -
  have "\<forall>i < length (lifts (tick (tick (snd (requestLift (init ElevatorSystem_new 6 1) 0 3))))).
     \<not> canAddRequest
          (lifts (tick (tick (snd (requestLift (init ElevatorSystem_new 6 1) 0 3)))) ! i) 0 5"
    by code_simp
  then show ?thesis by (rule requestLift_no_eligible_car)
qed

section \<open>Queries\<close>

text \<open>
  Claim C10. For a lift id below 0 or at least the number of lifts,
  \<^verbatim>\<open>getNumberOfPeopleOnLift\<close> returns 0; it does so in every state, reachable or
  not.
\<close>

theorem getNumberOfPeopleOnLift_out_of_range:
  assumes "liftId < 0 \<or> int (length (lifts s)) \<le> liftId"
  shows "getNumberOfPeopleOnLift s liftId = 0"
  using assms by (auto simp: getNumberOfPeopleOnLift_def)

text \<open>Two lifts, one of them carrying a passenger: ids 2 and -1 read 0, id 0 reads 1.\<close>

theorem getNumberOfPeopleOnLift_out_of_range_witness:
  "getNumberOfPeopleOnLift (snd (requestLift (init ElevatorSystem_new 6 2) 0 3)) 2 = 0
   \<and> getNumberOfPeopleOnLift (snd (requestLift (init ElevatorSystem_new 6 2) 0 3)) (- 1) = 0
   \<and> getNumberOfPeopleOnLift (snd (requestLift (init ElevatorSystem_new 6 2) 0 3)) 0 = 1"
proof -
  have len: "int (length (lifts (snd (requestLift (init ElevatorSystem_new 6 2) 0 3)))) = 2"
    by code_simp
  have one: "getNumberOfPeopleOnLift (snd (requestLift (init ElevatorSystem_new 6 2) 0 3)) 0 = 1"
    by code_simp
  from len one
    getNumberOfPeopleOnLift_out_of_range
      [of 2 "snd (requestLift (init ElevatorSystem_new 6 2) 0 3)"]
    getNumberOfPeopleOnLift_out_of_range
      [of "- 1" "snd (requestLift (init ElevatorSystem_new 6 2) 0 3)"]
  show ?thesis by simp
qed

section \<open>Invariants of the reachable states\<close>

subsection \<open>Facts about the dispatcher's operations\<close>

lemma canAddRequest_capacity: "canAddRequest l st d \<Longrightarrow> passengers l < 10"
  by (auto simp: canAddRequest_def split: if_splits)

lemma lifts_tick [simp]: "lifts (tick s) = map move (lifts s)"
  by (simp add: tick_def)

lemma sysTotalFloors_tick [simp]: "sysTotalFloors (tick s) = sysTotalFloors s"
  by (simp add: tick_def)

lemma requestLift_cases:
  obtains (rejected) "requestLift s st d = (- 1, s)"
  | (accepted) b where "b < length (lifts s)" "canAddRequest (lifts s ! b) st d"
      "requestLift s st d = (int b, s\<lparr>lifts := (lifts s)[b := addRequest (lifts s ! b) st d]\<rparr>)"
proof (cases "bestLiftFor s st d = - 1")
  case True
  then show ?thesis using rejected by (simp add: requestLift_def)
next
  case False
  from bestLiftFor_some [OF False] False show ?thesis
    using accepted [of "nat (bestLiftFor s st d)"] by (simp add: requestLift_def Let_def)
qed

lemma move_passengers_bounds:
  assumes "int (length (requests l)) \<le> passengers l" "passengers l \<le> 10"
  shows "int (length (requests (move l))) \<le> passengers (move l) \<and> passengers (move l) \<le> 10"
proof -
  let ?f = "step_floor l"
  have "length (filter (\<lambda>r. dest r = ?f) (requests l))
          + length (filter (\<lambda>r. \<not> dest r = ?f) (requests l)) = length (requests l)"
    by (rule sum_length_filter_compl)
  moreover have "length (requests (move l)) \<le> length (filter (\<lambda>r. \<not> dest r = ?f) (requests l))"
    by (simp only: move_fields length_filter_le)
  ultimately show ?thesis using assms by simp
qed

lemma reachable_passengers:
  "reachable s \<Longrightarrow> l \<in> set (lifts s) \<Longrightarrow>
   int (length (requests l)) \<le> passengers l \<and> passengers l \<le> 10"
proof (induction arbitrary: l rule: reachable.induct)
  case reachable_new
  then show ?case by (simp add: ElevatorSystem_new_def)
next
  case (reachable_init s floors n)
  then show ?case by (auto simp: init_def Lift_new_def)
next
  case (reachable_requestLift s st d)
  show ?case
  proof (cases rule: requestLift_cases [of s st d])
    case rejected
    with reachable_requestLift show ?thesis by simp
  next
    case (accepted b)
    from accepted(1) have mem: "lifts s ! b \<in> set (lifts s)" by simp
    from reachable_requestLift.prems accepted(3)
    have "l = addRequest (lifts s ! b) st d \<or> l \<in> set (lifts s)"
      using set_update_subset_insert [of "lifts s" b] by auto
    then show ?thesis
    proof
      assume "l = addRequest (lifts s ! b) st d"
      with reachable_requestLift.IH [OF mem] canAddRequest_capacity [OF accepted(2)]
      show ?thesis by simp
    next
      assume "l \<in> set (lifts s)"
      then show ?thesis by (rule reachable_requestLift.IH)
    qed
  qed
next
  case (reachable_tick s)
  from reachable_tick.prems obtain l' where "l' \<in> set (lifts s)" "l = move l'" by auto
  with reachable_tick.IH [of l'] move_passengers_bounds [of l'] show ?case by simp
qed

lemma reachable_direction:
  "reachable s \<Longrightarrow> l \<in> set (lifts s) \<Longrightarrow>
   (direction l = U \<longrightarrow> hasUpRequests l) \<and> (direction l = D \<longrightarrow> hasDownRequests l)"
proof (induction arbitrary: l rule: reachable.induct)
  case reachable_new
  then show ?case by (simp add: ElevatorSystem_new_def)
next
  case (reachable_init s floors n)
  then show ?case by (auto simp: init_def Lift_new_def)
next
  case (reachable_requestLift s st d)
  show ?case
  proof (cases rule: requestLift_cases [of s st d])
    case rejected
    with reachable_requestLift show ?thesis by simp
  next
    case (accepted b)
    from reachable_requestLift.prems accepted(3)
    have "l = addRequest (lifts s ! b) st d \<or> l \<in> set (lifts s)"
      using set_update_subset_insert [of "lifts s" b] by auto
    then show ?thesis
      using reachable_requestLift.IH direction_addRequest by blast
  qed
next
  case (reachable_tick s)
  from reachable_tick.prems obtain l' where "l' \<in> set (lifts s)" "l = move l'" by auto
  then show ?case using direction_move by blast
qed

lemma reachable_requests:
  "reachable s \<Longrightarrow> reachable (((\<lambda>s. snd (requestLift s st d)) ^^ n) s)"
  by (induction n) (simp_all add: reachable_requestLift)

lemma requestLift_single_eligible:
  assumes "canAddRequest l st d"
  shows "requestLift \<lparr>lifts = [l], sysTotalFloors = n\<rparr> st d
           = (0, \<lparr>lifts = [addRequest l st d], sysTotalFloors = n\<rparr>)"
  using assms by (simp add: requestLift_def bestLiftFor_def Let_def)

text \<open>A single lift on six floors that is sent the request (0, 3) \<open>k\<close> times in a row.\<close>

lemma fill_single_lift:
  "k \<le> 10 \<Longrightarrow>
   ((\<lambda>s. snd (requestLift s 0 3)) ^^ k) (init ElevatorSystem_new 6 1)
     = \<lparr>lifts = [\<lparr>lift_id = 0, totalFloors = 6, currentFloor = 0,
                   direction = (if k = 0 then I else U),
                   requests = replicate k \<lparr>start = 0, dest = 3\<rparr>,
                   passengers = int k\<rparr>],
        sysTotalFloors = 6\<rparr>"
proof (induction k)
  case 0
  show ?case by (simp add: init_def ElevatorSystem_new_def Lift_new_def)
next
  case (Suc k)
  let ?l = "\<lparr>lift_id = 0, totalFloors = 6, currentFloor = 0,
                   direction = (if k = 0 then I else U),
                   requests = replicate k \<lparr>start = 0, dest = 3\<rparr>,
                   passengers = int k\<rparr>"
  from Suc.prems have "canAddRequest ?l 0 3"
    by (cases "k = 0") (simp_all add: canAddRequest_def isIdle_def)
  from requestLift_single_eligible [OF this, of 6]
  have "snd (requestLift \<lparr>lifts = [?l], sysTotalFloors = 6\<rparr> 0 3)
          = \<lparr>lifts = [addRequest ?l 0 3], sysTotalFloors = 6\<rparr>" by simp
  moreover have "addRequest ?l 0 3 = \<lparr>lift_id = 0, totalFloors = 6, currentFloor = 0,
                   direction = U,
                   requests = replicate (Suc k) \<lparr>start = 0, dest = 3\<rparr>,
                   passengers = int (Suc k)\<rparr>"
    by (simp add: addRequest_def updateDirection_def hasUpRequests_def
          replicate_append_same)
  ultimately show ?case using Suc by simp
qed

subsection \<open>Passenger count\<close>

text \<open>
  Claim C6. In every reachable state of the dispatcher each lift's passenger count
  lies between 0 and 10, and a lift whose count is 10 refuses every request
  (\<^verbatim>\<open>canAddRequest\<close> is false whatever the start and destination).
\<close>

theorem passengers_within_capacity:
  assumes "reachable s" "l \<in> set (lifts s)"
  shows "0 \<le> passengers l \<and> passengers l \<le> 10
         \<and> (passengers l = 10 \<longrightarrow> \<not> canAddRequest l st d)"
proof -
  from reachable_passengers [OF assms]
  have "int (length (requests l)) \<le> passengers l" "passengers l \<le> 10" by simp_all
  moreover have "passengers l = 10 \<longrightarrow> \<not> canAddRequest l st d"
    using canAddRequest_capacity [of l st d] by auto
  ultimately show ?thesis by simp
qed

text \<open>
  Ten requests (0, 3) to a single lift are all accepted and fill it; the lift then
  refuses the request (0, 4).
\<close>

theorem passengers_within_capacity_witness:
  "reachable (((\<lambda>s. snd (requestLift s 0 3)) ^^ 10) (init ElevatorSystem_new 6 1))
   \<and> passengers (lifts (((\<lambda>s. snd (requestLift s 0 3)) ^^ 10) (init ElevatorSystem_new 6 1)) ! 0) = 10
   \<and> \<not> canAddRequest
        (lifts (((\<lambda>s. snd (requestLift s 0 3)) ^^ 10) (init ElevatorSystem_new 6 1)) ! 0) 0 4"
proof -
  let ?s = "((\<lambda>s. snd (requestLift s 0 3)) ^^ 10) (init ElevatorSystem_new 6 1)"
  have r: "reachable ?s"
    by (intro reachable_requests reachable_init reachable_new)
  have m: "lifts ?s ! 0 \<in> set (lifts ?s)"
    using fill_single_lift [of 10] by simp
  have p: "passengers (lifts ?s ! 0) = 10"
    using fill_single_lift [of 10] by simp
  have n: "\<not> canAddRequest (lifts ?s ! 0) 0 4"
    using passengers_within_capacity [OF r m, of 0 4] p by blast
  show ?thesis by (intro conjI r p n)
qed

subsection \<open>Floor range\<close>




subsection \<open>Idle and the request list\<close>

lemma updateDirection_Idle_iff:
  assumes "list_all (\<lambda>r. start r \<noteq> currentFloor l \<or> dest r \<noteq> currentFloor l) (requests l)"
  shows "(direction (updateDirection l) = I) = (requests l = [])"
proof (cases "requests l")
  case Nil
  then show ?thesis by (simp add: direction_updateDirection_I)
next
  case (Cons r rs)
  with assms have "start r \<noteq> currentFloor l \<or> dest r \<noteq> currentFloor l" by simp
  with Cons have "hasUpRequests l \<or> hasDownRequests l"
    by (auto simp: hasUpRequests_def hasDownRequests_def)
  with Cons show ?thesis by (simp add: direction_updateDirection_I)
qed

lemma direction_move_Idle: "(direction (move l) = I) = (requests (move l) = [])"
proof -
  let ?l = "l\<lparr>currentFloor := step_floor l,
               passengers := passengers l
                 - int (length (filter (\<lambda>r. dest r = step_floor l) (requests l))),
               requests := filter (\<lambda>r. start r \<noteq> step_floor l)
                 (filter (\<lambda>r. dest r \<noteq> step_floor l) (requests l))\<rparr>"
  have "list_all (\<lambda>r. start r \<noteq> currentFloor ?l \<or> dest r \<noteq> currentFloor ?l) (requests ?l)"
    by (simp add: list_all_iff)
  from updateDirection_Idle_iff [OF this] show ?thesis
    by (simp add: move_def Let_def)
qed

text \<open>
  Claim C4, as amended. For a lift reached from a fresh one by \<^verbatim>\<open>move\<close> and by
  \<^verbatim>\<open>addRequest\<close> of requests whose start and destination differ, the direction is
  \<open>I\<close> exactly when the request list is empty.
\<close>

theorem Idle_iff_no_requests:
  assumes "reachableLift (\<lambda>st d. st \<noteq> d) l"
  shows "(direction l = I) = (requests l = [])"
  using assms
proof (induction rule: reachableLift.induct)
  case (reachableLift_new i floors)
  show ?case by (simp add: Lift_new_def)
next
  case (reachableLift_addRequest l st d)
  then show ?case by (simp add: direction_addRequest_not_Idle)
next
  case (reachableLift_move l)
  show ?case by (rule direction_move_Idle)
qed

text \<open>A lift that took the request (0, 3) and moved once: direction \<open>U\<close>, one request.\<close>

theorem Idle_iff_no_requests_witness:
  "reachableLift (\<lambda>st d. st \<noteq> d) (move (addRequest (Lift_new 0 6) 0 3))
   \<and> direction (move (addRequest (Lift_new 0 6) 0 3)) = U
   \<and> requests (move (addRequest (Lift_new 0 6) 0 3)) = [\<lparr>start = 0, dest = 3\<rparr>]
   \<and> (direction (move (addRequest (Lift_new 0 6) 0 3)) = I)
       = (requests (move (addRequest (Lift_new 0 6) 0 3)) = [])"
proof -
  have r: "reachableLift (\<lambda>st d. st \<noteq> d) (move (addRequest (Lift_new 0 6) 0 3))"
    by (intro reachableLift_move reachableLift_addRequest reachableLift_new) simp
  have "direction (move (addRequest (Lift_new 0 6) 0 3)) = U"
    "requests (move (addRequest (Lift_new 0 6) 0 3)) = [\<lparr>start = 0, dest = 3\<rparr>]"
    by code_simp+
  with Idle_iff_no_requests [OF r] r show ?thesis by simp
qed

text \<open>
  Claim C4 as stated allows any request. A fresh lift at floor 0 that is given the
  request (0, 0) keeps the request in its list, and \<^verbatim>\<open>updateDirection\<close> finds
  neither upward nor downward work and leaves the direction \<open>I\<close>.
\<close>

theorem Idle_iff_no_requests_counterexample:
  "reachableLift (\<lambda>st d. True) (addRequest (Lift_new 0 6) 0 0)
   \<and> direction (addRequest (Lift_new 0 6) 0 0) = I
   \<and> requests (addRequest (Lift_new 0 6) 0 0) = [\<lparr>start = 0, dest = 0\<rparr>]
   \<and> (direction (addRequest (Lift_new 0 6) 0 0) = I)
       \<noteq> (requests (addRequest (Lift_new 0 6) 0 0) = [])"
proof -
  have "reachableLift (\<lambda>st d. True) (addRequest (Lift_new 0 6) 0 0)"
    by (intro reachableLift_addRequest reachableLift_new) simp
  moreover have "direction (addRequest (Lift_new 0 6) 0 0) = I"
    "requests (addRequest (Lift_new 0 6) 0 0) = [\<lparr>start = 0, dest = 0\<rparr>]"
    by code_simp+
  ultimately show ?thesis by simp
qed

section \<open>The time estimate\<close>

lemma Max_insert_max:
  "finite A \<Longrightarrow> Max (insert (max a b) A) = Max (insert a (insert b A))"
  for a b :: int
  by (cases "A = {}") (simp_all add: max.assoc)

lemma Min_insert_min:
  "finite A \<Longrightarrow> Min (insert (min a b) A) = Min (insert a (insert b A))"
  for a b :: int
  by (cases "A = {}") (simp_all add: min.assoc)

lemma maxFloor_loop_up:
  "maxFloor_loop True m rs = Max (set (m # concat (map (\<lambda>r. [start r, dest r]) rs)))"
proof (induction rs arbitrary: m)
  case Nil
  show ?case by simp
next
  case (Cons r rs)
  let ?A = "set (concat (map (\<lambda>r. [start r, dest r]) rs))"
  have "Max (insert (max (max m (start r)) (dest r)) ?A)
          = Max (insert (max m (start r)) (insert (dest r) ?A))"
    by (rule Max_insert_max) simp
  also have "\<dots> = Max (insert m (insert (start r) (insert (dest r) ?A)))"
    by (rule Max_insert_max) simp
  finally show ?case by (simp add: Cons.IH)
qed

lemma maxFloor_loop_down:
  "maxFloor_loop False m rs = Min (set (m # concat (map (\<lambda>r. [start r, dest r]) rs)))"
proof (induction rs arbitrary: m)
  case Nil
  show ?case by simp
next
  case (Cons r rs)
  let ?A = "set (concat (map (\<lambda>r. [start r, dest r]) rs))"
  have "Min (insert (min (min m (start r)) (dest r)) ?A)
          = Min (insert (min m (start r)) (insert (dest r) ?A))"
    by (rule Min_insert_min) simp
  also have "\<dots> = Min (insert m (insert (start r) (insert (dest r) ?A)))"
    by (rule Min_insert_min) simp
  finally show ?case by (simp add: Cons.IH)
qed

lemma maxFloor_loop_turnaround:
  "maxFloor_loop (direction l = U) (currentFloor l) (requests l) = turnaroundFloor_spec l"
  by (simp add: turnaroundFloor_spec_def committedFloors_def maxFloor_loop_up maxFloor_loop_down)

lemma turnaroundFloor_spec_up: "direction l = U \<Longrightarrow> currentFloor l \<le> turnaroundFloor_spec l"
  by (simp add: turnaroundFloor_spec_def)

lemma turnaroundFloor_spec_down: "direction l \<noteq> U \<Longrightarrow> turnaroundFloor_spec l \<le> currentFloor l"
  by (simp add: turnaroundFloor_spec_def)

text \<open>
  Where the pickup floor does not lie beyond the turnaround floor,
  \<^verbatim>\<open>calculateTimeToReach\<close> is the estimate the specification describes: for a lift
  that is idle only when it has no requests, and a request direction \<open>U\<close> or \<open>D\<close>.
\<close>

lemma calculateTimeToReach_eq_etaTo_spec:
  assumes "direction l = I \<longrightarrow> requests l = []"
    and "requestDirection \<noteq> I"
    and "direction l = I \<or> (direction l = requestDirection \<and> pickupAhead_spec l st)
         \<or> \<not> pickupBeyondTurnaround l st"
  shows "calculateTimeToReach l st requestDirection = etaTo_spec l st requestDirection"
proof (cases "direction l = I")
  case True
  with assms(1) show ?thesis
    by (simp add: calculateTimeToReach_def etaTo_spec_def isIdle_def)
next
  case False
  then have ni: "\<not> isIdle l" by (simp add: isIdle_def)
  show ?thesis
  proof (cases "direction l = requestDirection \<and> pickupAhead_spec l st")
    case True
    with False ni show ?thesis
      by (cases "direction l")
         (auto simp: calculateTimeToReach_def etaTo_spec_def pickupAhead_spec_def Let_def)
  next
    case nd: False
    with assms(3) False have nb: "\<not> pickupBeyondTurnaround l st" by simp
    show ?thesis
    proof (cases "direction l = U")
      case True
      with nb have "st \<le> turnaroundFloor_spec l" by (simp add: pickupBeyondTurnaround_def)
      with True nd ni turnaroundFloor_spec_up [of l] maxFloor_loop_turnaround [of l] assms(2)
      show ?thesis
        by (cases requestDirection)
           (auto simp: calculateTimeToReach_def etaTo_spec_def pickupAhead_spec_def
              distance_def Let_def)
    next
      case nu: False
      with False have dn: "direction l = D" by (cases "direction l") simp_all
      from nu nb have "turnaroundFloor_spec l \<le> st" by (simp add: pickupBeyondTurnaround_def)
      with dn nd ni turnaroundFloor_spec_down [of l] maxFloor_loop_turnaround [of l] assms(2)
      show ?thesis
        by (cases requestDirection)
           (auto simp: calculateTimeToReach_def etaTo_spec_def pickupAhead_spec_def
              distance_def Let_def)
    qed
  qed
qed

text \<open>
  Claim C9 at a concrete dispatcher. Two lifts on six floors: lift 0 serves the
  request (0, 2) and stands idle at floor 2; lift 1 has just taken the request (0, 1)
  and is at floor 0, going up, with turnaround floor 1. For the downward request
  (3, 0) lift 1 is eligible and the source estimates \<open>(1 - 0) + (1 - 3) = -1\<close>,
  where the distance to the turnaround floor plus the distance from there back to
  floor 3 is \<open>1 + 2 = 3\<close>. Idle lift 0, one floor from the pickup, has time 1, and
  \<^verbatim>\<open>requestLift\<close> chooses lift 1.
\<close>

theorem calculateTimeToReach_negative_estimate:
  "snd (requestLift (tick (tick (snd (requestLift (init ElevatorSystem_new 6 2) 0 2)))) 0 1)
     = \<lparr>lifts = [\<lparr>lift_id = 0, totalFloors = 6, currentFloor = 2, direction = I,
            requests = [], passengers = 0\<rparr>,
          \<lparr>lift_id = 1, totalFloors = 6, currentFloor = 0, direction = U,
            requests = [\<lparr>start = 0, dest = 1\<rparr>], passengers = 1\<rparr>],
        sysTotalFloors = 6\<rparr>
   \<and> canAddRequest
         \<lparr>lift_id = 1, totalFloors = 6, currentFloor = 0, direction = U,
            requests = [\<lparr>start = 0, dest = 1\<rparr>], passengers = 1\<rparr> 3 0
   \<and> calculateTimeToReach
         \<lparr>lift_id = 1, totalFloors = 6, currentFloor = 0, direction = U,
            requests = [\<lparr>start = 0, dest = 1\<rparr>], passengers = 1\<rparr> 3 D = - 1
   \<and> etaTo_spec
         \<lparr>lift_id = 1, totalFloors = 6, currentFloor = 0, direction = U,
            requests = [\<lparr>start = 0, dest = 1\<rparr>], passengers = 1\<rparr> 3 D = 3
   \<and> calculateTimeToReach
         \<lparr>lift_id = 0, totalFloors = 6, currentFloor = 2, direction = I,
            requests = [], passengers = 0\<rparr> 3 D = 1
   \<and> fst (requestLift
         \<lparr>lifts = [\<lparr>lift_id = 0, totalFloors = 6, currentFloor = 2, direction = I,
            requests = [], passengers = 0\<rparr>,
          \<lparr>lift_id = 1, totalFloors = 6, currentFloor = 0, direction = U,
            requests = [\<lparr>start = 0, dest = 1\<rparr>], passengers = 1\<rparr>],
        sysTotalFloors = 6\<rparr> 3 0) = 1"
proof -
  have s0: "init ElevatorSystem_new 6 2
     = \<lparr>lifts = [\<lparr>lift_id = 0, totalFloors = 6, currentFloor = 0, direction = I,
            requests = [], passengers = 0\<rparr>,
          \<lparr>lift_id = 1, totalFloors = 6, currentFloor = 0, direction = I,
            requests = [], passengers = 0\<rparr>],
        sysTotalFloors = 6\<rparr>"
    by code_simp
  have s1: "snd (requestLift
       \<lparr>lifts = [\<lparr>lift_id = 0, totalFloors = 6, currentFloor = 0, direction = I,
            requests = [], passengers = 0\<rparr>,
          \<lparr>lift_id = 1, totalFloors = 6, currentFloor = 0, direction = I,
            requests = [], passengers = 0\<rparr>],
        sysTotalFloors = 6\<rparr> 0 2)
     = \<lparr>lifts = [\<lparr>lift_id = 0, totalFloors = 6, currentFloor = 0, direction = U,
            requests = [\<lparr>start = 0, dest = 2\<rparr>], passengers = 1\<rparr>,
          \<lparr>lift_id = 1, totalFloors = 6, currentFloor = 0, direction = I,
            requests = [], passengers = 0\<rparr>],
        sysTotalFloors = 6\<rparr>"
    by code_simp
  have s2: "tick
       \<lparr>lifts = [\<lparr>lift_id = 0, totalFloors = 6, currentFloor = 0, direction = U,
            requests = [\<lparr>start = 0, dest = 2\<rparr>], passengers = 1\<rparr>,
          \<lparr>lift_id = 1, totalFloors = 6, currentFloor = 0, direction = I,
            requests = [], passengers = 0\<rparr>],
        sysTotalFloors = 6\<rparr>
     = \<lparr>lifts = [\<lparr>lift_id = 0, totalFloors = 6, currentFloor = 1, direction = U,
            requests = [\<lparr>start = 0, dest = 2\<rparr>], passengers = 1\<rparr>,
          \<lparr>lift_id = 1, totalFloors = 6, currentFloor = 0, direction = I,
            requests = [], passengers = 0\<rparr>],
        sysTotalFloors = 6\<rparr>"
    by code_simp
  have s3: "tick
       \<lparr>lifts = [\<lparr>lift_id = 0, totalFloors = 6, currentFloor = 1, direction = U,
            requests = [\<lparr>start = 0, dest = 2\<rparr>], passengers = 1\<rparr>,
          \<lparr>lift_id = 1, totalFloors = 6, currentFloor = 0, direction = I,
            requests = [], passengers = 0\<rparr>],
        sysTotalFloors = 6\<rparr>
     = \<lparr>lifts = [\<lparr>lift_id = 0, totalFloors = 6, currentFloor = 2, direction = I,
            requests = [], passengers = 0\<rparr>,
          \<lparr>lift_id = 1, totalFloors = 6, currentFloor = 0, direction = I,
            requests = [], passengers = 0\<rparr>],
        sysTotalFloors = 6\<rparr>"
    by code_simp
  have s4: "snd (requestLift
       \<lparr>lifts = [\<lparr>lift_id = 0, totalFloors = 6, currentFloor = 2, direction = I,
            requests = [], passengers = 0\<rparr>,
          \<lparr>lift_id = 1, totalFloors = 6, currentFloor = 0, direction = I,
            requests = [], passengers = 0\<rparr>],
        sysTotalFloors = 6\<rparr> 0 1)
     = \<lparr>lifts = [\<lparr>lift_id = 0, totalFloors = 6, currentFloor = 2, direction = I,
            requests = [], passengers = 0\<rparr>,
          \<lparr>lift_id = 1, totalFloors = 6, currentFloor = 0, direction = U,
            requests = [\<lparr>start = 0, dest = 1\<rparr>], passengers = 1\<rparr>],
        sysTotalFloors = 6\<rparr>"
    by code_simp
  have run: "snd (requestLift (tick (tick (snd (requestLift (init ElevatorSystem_new 6 2) 0 2)))) 0 1)
     = \<lparr>lifts = [\<lparr>lift_id = 0, totalFloors = 6, currentFloor = 2, direction = I,
            requests = [], passengers = 0\<rparr>,
          \<lparr>lift_id = 1, totalFloors = 6, currentFloor = 0, direction = U,
            requests = [\<lparr>start = 0, dest = 1\<rparr>], passengers = 1\<rparr>],
        sysTotalFloors = 6\<rparr>"
    by (simp only: s0 s1 s2 s3 s4)
  have eligible: "canAddRequest
         \<lparr>lift_id = 1, totalFloors = 6, currentFloor = 0, direction = U,
            requests = [\<lparr>start = 0, dest = 1\<rparr>], passengers = 1\<rparr> 3 0"
    by code_simp
  have code: "calculateTimeToReach
         \<lparr>lift_id = 1, totalFloors = 6, currentFloor = 0, direction = U,
            requests = [\<lparr>start = 0, dest = 1\<rparr>], passengers = 1\<rparr> 3 D = - 1"
    by code_simp
  have spec: "etaTo_spec
         \<lparr>lift_id = 1, totalFloors = 6, currentFloor = 0, direction = U,
            requests = [\<lparr>start = 0, dest = 1\<rparr>], passengers = 1\<rparr> 3 D = 3"
    by code_simp
  have idle: "calculateTimeToReach
         \<lparr>lift_id = 0, totalFloors = 6, currentFloor = 2, direction = I,
            requests = [], passengers = 0\<rparr> 3 D = 1"
    by code_simp
  have pick: "fst (requestLift
         \<lparr>lifts = [\<lparr>lift_id = 0, totalFloors = 6, currentFloor = 2, direction = I,
            requests = [], passengers = 0\<rparr>,
          \<lparr>lift_id = 1, totalFloors = 6, currentFloor = 0, direction = U,
            requests = [\<lparr>start = 0, dest = 1\<rparr>], passengers = 1\<rparr>],
        sysTotalFloors = 6\<rparr> 3 0) = 1"
    by code_simp
  show ?thesis by (intro conjI run eligible code spec idle pick)
qed

section \<open>Admission and the sweep\<close>

text \<open>
  What \<^verbatim>\<open>canAddRequest\<close> decides for a lift under capacity. A request against the
  lift's direction is always accepted: the two tests of
  \<^verbatim>\<open>maxFloorInCurrentDirection\<close> stand in the branch where the directions differ
  and require them to agree, so they never fire.
\<close>

lemma canAddRequest_opposite_direction:
  "passengers l < 10 \<Longrightarrow> (direction l = U) \<noteq> (st < d) \<Longrightarrow> canAddRequest l st d"
  by (auto simp: canAddRequest_def Let_def)

text \<open>
  Claim C1, as amended. For a lift going up and under capacity, an upward request is
  eligible exactly when the lift has not passed the request's start floor (its floor
  is at most the start floor), whether the start floor lies within the current sweep
  or beyond the farthest committed floor.
\<close>

theorem canAddRequest_same_direction_up:
  "passengers l < 10 \<Longrightarrow> direction l = U \<Longrightarrow> st < d \<Longrightarrow>
   canAddRequest l st d = (currentFloor l \<le> st)"
  by (auto simp: canAddRequest_def isIdle_def Let_def)

text \<open>
  A lift that took the request (0, 5) and moved to floor 2 accepts the upward requests
  (3, 4) and (7, 9) and refuses (1, 4), whose start floor it has passed.
\<close>

theorem canAddRequest_same_direction_up_witness:
  "passengers (move (move (addRequest (Lift_new 0 10) 0 5))) < 10
   \<and> direction (move (move (addRequest (Lift_new 0 10) 0 5))) = U
   \<and> currentFloor (move (move (addRequest (Lift_new 0 10) 0 5))) = 2
   \<and> canAddRequest (move (move (addRequest (Lift_new 0 10) 0 5))) 3 4
   \<and> canAddRequest (move (move (addRequest (Lift_new 0 10) 0 5))) 7 9
   \<and> \<not> canAddRequest (move (move (addRequest (Lift_new 0 10) 0 5))) 1 4"
proof -
  have p: "passengers (move (move (addRequest (Lift_new 0 10) 0 5))) < 10" by code_simp
  have u: "direction (move (move (addRequest (Lift_new 0 10) 0 5))) = U" by code_simp
  have c: "currentFloor (move (move (addRequest (Lift_new 0 10) 0 5))) = 2" by code_simp
  have a: "canAddRequest (move (move (addRequest (Lift_new 0 10) 0 5))) 3 4"
    using canAddRequest_same_direction_up [OF p u, of 3 4] c by simp
  have b: "canAddRequest (move (move (addRequest (Lift_new 0 10) 0 5))) 7 9"
    using canAddRequest_same_direction_up [OF p u, of 7 9] c by simp
  have n: "\<not> canAddRequest (move (move (addRequest (Lift_new 0 10) 0 5))) 1 4"
    using canAddRequest_same_direction_up [OF p u, of 1 4] c by simp
  show ?thesis by (intro conjI p u c a b n)
qed

text \<open>
  Claim C1 as stated has an upward request refused when it starts beyond the farthest
  committed floor. A fresh lift that took the request (0, 5) is at floor 0, going up,
  under capacity, and its farthest committed floor is 5; the upward request (7, 9)
  starts beyond floor 5, and \<^verbatim>\<open>canAddRequest\<close> accepts it.
\<close>

theorem canAddRequest_accepts_start_beyond_farthest_floor:
  "direction (addRequest (Lift_new 0 10) 0 5) = U
   \<and> currentFloor (addRequest (Lift_new 0 10) 0 5) = 0
   \<and> requests (addRequest (Lift_new 0 10) 0 5) = [\<lparr>start = 0, dest = 5\<rparr>]
   \<and> passengers (addRequest (Lift_new 0 10) 0 5) = 1
   \<and> Max (set (committedFloors (addRequest (Lift_new 0 10) 0 5))) = 5
   \<and> canAddRequest (addRequest (Lift_new 0 10) 0 5) 7 9"
proof -
  have d: "direction (addRequest (Lift_new 0 10) 0 5) = U" by code_simp
  have c: "currentFloor (addRequest (Lift_new 0 10) 0 5) = 0" by code_simp
  have r: "requests (addRequest (Lift_new 0 10) 0 5) = [\<lparr>start = 0, dest = 5\<rparr>]" by code_simp
  have p: "passengers (addRequest (Lift_new 0 10) 0 5) = 1" by code_simp
  have f: "Max (set (committedFloors (addRequest (Lift_new 0 10) 0 5))) = 5" by code_simp
  have a: "canAddRequest (addRequest (Lift_new 0 10) 0 5) 7 9" by code_simp
  show ?thesis by (intro conjI d c r p f a)
qed

text \<open>
  Claim C3 at a concrete lift. For the same lift the downward request (7, 2) runs
  against the lift's direction and starts beyond the farthest committed floor 5, so
  serving it takes the lift past its turnaround floor; \<^verbatim>\<open>canAddRequest\<close>
  accepts it.
\<close>

theorem canAddRequest_accepts_opposite_overshoot:
  "direction (addRequest (Lift_new 0 10) 0 5) = U
   \<and> requests (addRequest (Lift_new 0 10) 0 5) = [\<lparr>start = 0, dest = 5\<rparr>]
   \<and> passengers (addRequest (Lift_new 0 10) 0 5) = 1
   \<and> maxFloorInCurrentDirection (addRequest (Lift_new 0 10) 0 5) = Num 5
   \<and> canAddRequest (addRequest (Lift_new 0 10) 0 5) 7 2"
proof -
  have "direction (addRequest (Lift_new 0 10) 0 5) = U"
    "requests (addRequest (Lift_new 0 10) 0 5) = [\<lparr>start = 0, dest = 5\<rparr>]"
    "passengers (addRequest (Lift_new 0 10) 0 5) = 1"
    "maxFloorInCurrentDirection (addRequest (Lift_new 0 10) 0 5) = Num 5"
    "canAddRequest (addRequest (Lift_new 0 10) 0 5) 7 2"
    by code_simp+
  then show ?thesis by simp
qed

section \<open>Round trip\<close>

text \<open>
  Claim C2 at a concrete lift. A fresh lift takes the requests (0, 5) and (2, 5) and
  moves five times. At floor 2 the second request is removed as picked up; at floor 5
  the first request is completed. The lift is then at the destination of both
  requests, idle, with no requests, and its passenger count is 1, not 0.
\<close>

theorem round_trip_leaves_passenger:
  "(move ^^ 5) (addRequest (addRequest (Lift_new 0 10) 0 5) 2 5)
     = \<lparr>lift_id = 0, totalFloors = 10, currentFloor = 5, direction = I,
        requests = [], passengers = 1\<rparr>"
proof -
  have s0: "addRequest (addRequest (Lift_new 0 10) 0 5) 2 5
      = \<lparr>lift_id = 0, totalFloors = 10, currentFloor = 0, direction = U,
         requests = [\<lparr>start = 0, dest = 5\<rparr>, \<lparr>start = 2, dest = 5\<rparr>], passengers = 2\<rparr>"
    by code_simp
  have s1: "move \<lparr>lift_id = 0, totalFloors = 10, currentFloor = 0, direction = U,
         requests = [\<lparr>start = 0, dest = 5\<rparr>, \<lparr>start = 2, dest = 5\<rparr>], passengers = 2\<rparr>
      = \<lparr>lift_id = 0, totalFloors = 10, currentFloor = 1, direction = U,
         requests = [\<lparr>start = 0, dest = 5\<rparr>, \<lparr>start = 2, dest = 5\<rparr>], passengers = 2\<rparr>"
    by code_simp
  have s2: "move \<lparr>lift_id = 0, totalFloors = 10, currentFloor = 1, direction = U,
         requests = [\<lparr>start = 0, dest = 5\<rparr>, \<lparr>start = 2, dest = 5\<rparr>], passengers = 2\<rparr>
      = \<lparr>lift_id = 0, totalFloors = 10, currentFloor = 2, direction = U,
         requests = [\<lparr>start = 0, dest = 5\<rparr>], passengers = 2\<rparr>"
    by code_simp
  have s3: "move \<lparr>lift_id = 0, totalFloors = 10, currentFloor = 2, direction = U,
         requests = [\<lparr>start = 0, dest = 5\<rparr>], passengers = 2\<rparr>
      = \<lparr>lift_id = 0, totalFloors = 10, currentFloor = 3, direction = U,
         requests = [\<lparr>start = 0, dest = 5\<rparr>], passengers = 2\<rparr>"
    by code_simp
  have s4: "move \<lparr>lift_id = 0, totalFloors = 10, currentFloor = 3, direction = U,
         requests = [\<lparr>start = 0, dest = 5\<rparr>], passengers = 2\<rparr>
      = \<lparr>lift_id = 0, totalFloors = 10, currentFloor = 4, direction = U,
         requests = [\<lparr>start = 0, dest = 5\<rparr>], passengers = 2\<rparr>"
    by code_simp
  have s5: "move \<lparr>lift_id = 0, totalFloors = 10, currentFloor = 4, direction = U,
         requests = [\<lparr>start = 0, dest = 5\<rparr>], passengers = 2\<rparr>
      = \<lparr>lift_id = 0, totalFloors = 10, currentFloor = 5, direction = I,
         requests = [], passengers = 1\<rparr>"
    by code_simp
  have "(move ^^ 5) (addRequest (addRequest (Lift_new 0 10) 0 5) 2 5)
      = move (move (move (move (move (addRequest (addRequest (Lift_new 0 10) 0 5) 2 5)))))"
    by (simp add: eval_nat_numeral)
  also have "\<dots> = \<lparr>lift_id = 0, totalFloors = 10, currentFloor = 5, direction = I,
        requests = [], passengers = 1\<rparr>"
    by (simp only: s0 s1 s2 s3 s4 s5)
  finally show ?thesis .
qed

end
